theory Spec2Isabelle
  imports Main
begin

section \<open>The participant graph of \<^verbatim>\<open>otto::itc\<close>\<close>

text \<open>
  \<^verbatim>\<open>src/itc/itc.hpp\<close> declares three class templates over a payload type
  \<^verbatim>\<open>State\<close>: \<^verbatim>\<open>Channel\<close>, \<^verbatim>\<open>Producer\<close> and \<^verbatim>\<open>Consumer\<close>. They hold raw pointers
  to each other. The model keeps one typed heap per class, a partial map from addresses
  to objects: an address is live when the map is defined there, a destructor removes the
  address, and reading or writing through a pointer whose target is not live is
  undefined behaviour, which every operation reports as \<open>None\<close>. A constructor takes the
  address of the new object, which must not be live (an address is free again once its
  object is destroyed). The copy operations that the compiler generates for \<^verbatim>\<open>Producer\<close>
  and \<^verbatim>\<open>Consumer\<close> are not part of the model.
\<close>

type_synonym addr = nat

text \<open>\<^verbatim>\<open>Channel::consumers_\<close> and \<^verbatim>\<open>Channel::producer_\<close> (\<open>nullptr\<close> is \<open>None\<close>).\<close>

record Channel =
  consumers :: "addr list"
  producer :: "addr option"

text \<open>\<^verbatim>\<open>Producer::channels_\<close>.\<close>

record Producer =
  channels :: "addr list"

text \<open>\<^verbatim>\<open>Consumer::channel_\<close> and \<^verbatim>\<open>Consumer::state_\<close>.\<close>

record 'st Consumer =
  channel :: "addr option"
  state :: 'st

text \<open>
  The three heaps, and \<open>observed\<close>: everything an override of the virtual hook
  \<^verbatim>\<open>on_new_state\<close> writes (fields of the subclass, a log).
\<close>

record ('st, 'u) world =
  channel_heap :: "addr \<rightharpoonup> Channel"
  producer_heap :: "addr \<rightharpoonup> Producer"
  consumer_heap :: "addr \<rightharpoonup> 'st Consumer"
  observed :: 'u

text \<open>
  The virtual hook \<^verbatim>\<open>Consumer::on_new_state(const State& s)\<close>: it receives \<^verbatim>\<open>this\<close>, the
  incoming state and the world as it is while the hook runs (so the hook can call
  \<^verbatim>\<open>state()\<close>), and returns what it has written. A hook does not construct, destroy or
  rebind participants. The default hook of the source has an empty body.
\<close>

type_synonym ('st, 'u) hook = "addr \<Rightarrow> 'st \<Rightarrow> ('st, 'u) world \<Rightarrow> 'u"

definition default_hook :: "('st, 'u) hook" where
  "default_hook this s w = observed w"

definition empty_world :: "'u \<Rightarrow> ('st, 'u) world" where
  "empty_world u =
     \<lparr>channel_heap = Map.empty, producer_heap = Map.empty, consumer_heap = Map.empty,
      observed = u\<rparr>"

subsection \<open>Range-based \<^verbatim>\<open>for\<close>\<close>

text \<open>
  Every loop of the source is \<^verbatim>\<open>for (auto* x : xs) body\<close> over a vector that the body
  does not change; the loop stops at the first undefined step.
\<close>

primrec for_each :: "('a \<Rightarrow> 's \<Rightarrow> 's option) \<Rightarrow> 'a list \<Rightarrow> 's \<Rightarrow> 's option" where
  "for_each f [] w = Some w"
| "for_each f (x # xs) w = (case f x w of None \<Rightarrow> None | Some w' \<Rightarrow> for_each f xs w')"

subsection \<open>Accessors\<close>

text \<open>\<^verbatim>\<open>Channel::consumers()\<close>, \<^verbatim>\<open>Channel::producer()\<close>, \<^verbatim>\<open>Producer::channels()\<close>,
  \<^verbatim>\<open>Consumer::channel()\<close> and \<^verbatim>\<open>Consumer::state()\<close>, each on a live object.\<close>

definition Channel_consumers :: "('st, 'u) world \<Rightarrow> addr \<Rightarrow> addr list option" where
  "Channel_consumers w ch = map_option consumers (channel_heap w ch)"

definition Channel_producer :: "('st, 'u) world \<Rightarrow> addr \<Rightarrow> addr option option" where
  "Channel_producer w ch = map_option producer (channel_heap w ch)"

definition Producer_channels :: "('st, 'u) world \<Rightarrow> addr \<Rightarrow> addr list option" where
  "Producer_channels w p = map_option channels (producer_heap w p)"

definition Consumer_channel :: "('st, 'u) world \<Rightarrow> addr \<Rightarrow> addr option option" where
  "Consumer_channel w c = map_option channel (consumer_heap w c)"

definition Consumer_state :: "('st, 'u) world \<Rightarrow> addr \<Rightarrow> 'st option" where
  "Consumer_state w c = map_option state (consumer_heap w c)"

subsection \<open>Channel\<close>

text \<open>\<^verbatim>\<open>Channel() noexcept {}\<close> at a fresh address.\<close>

definition Channel_ctor :: "addr \<Rightarrow> ('st, 'u) world \<Rightarrow> ('st, 'u) world option" where
  "Channel_ctor this w =
     (case channel_heap w this of
        Some _ \<Rightarrow> None
      | None \<Rightarrow>
          Some (w\<lparr>channel_heap := (channel_heap w)(this \<mapsto> \<lparr>consumers = [], producer = None\<rparr>)\<rparr>))"

text \<open>\<^verbatim>\<open>producer_ = p; if (p) p->channels_.emplace_back(this);\<close>\<close>

definition set_producer ::
  "addr \<Rightarrow> addr option \<Rightarrow> ('st, 'u) world \<Rightarrow> ('st, 'u) world option" where
  "set_producer this p w =
     (case channel_heap w this of
        None \<Rightarrow> None
      | Some ch \<Rightarrow>
          (let w1 = w\<lparr>channel_heap := (channel_heap w)(this \<mapsto> ch\<lparr>producer := p\<rparr>)\<rparr> in
           case p of
             None \<Rightarrow> Some w1
           | Some q \<Rightarrow>
               (case producer_heap w1 q of
                  None \<Rightarrow> None
                | Some pr \<Rightarrow>
                    Some (w1\<lparr>producer_heap :=
                      (producer_heap w1)(q \<mapsto> pr\<lparr>channels := channels pr @ [this]\<rparr>)\<rparr>))))"

text \<open>\<^verbatim>\<open>consumers_.push_back(c);\<close>\<close>

definition internal_add_consumer ::
  "addr \<Rightarrow> addr \<Rightarrow> ('st, 'u) world \<Rightarrow> ('st, 'u) world option" where
  "internal_add_consumer this c w =
     (case channel_heap w this of
        None \<Rightarrow> None
      | Some ch \<Rightarrow>
          Some (w\<lparr>channel_heap := (channel_heap w)(this \<mapsto> ch\<lparr>consumers := consumers ch @ [c]\<rparr>)\<rparr>))"

subsection \<open>Consumer\<close>

text \<open>
  The template argument \<^verbatim>\<open>State\<close>, as far as the member declaration \<^verbatim>\<open>State state_;\<close>
  depends on it. The declaration has no initialiser and the constructor's initialiser
  list does not name the member, so the member is default-initialised:
  \<^item> \<open>Trivial z\<close>: \<^verbatim>\<open>State\<close> is trivially default-constructible (an \<^verbatim>\<open>int\<close>, a plain struct with
    no default member initialisers). Default-initialisation performs no initialisation
    and the member keeps what its storage held. \<open>z\<close> is the value of \<^verbatim>\<open>State()\<close>, the
    value-initialised (zeroed) object.
  \<^item> \<open>Constructed v\<close>: a default constructor or default member initialisers run and leave
    \<open>v\<close>, which is also the value of \<^verbatim>\<open>State()\<close>.
\<close>

datatype 'st State_type = Trivial 'st | Constructed 'st


text \<open>What \<^verbatim>\<open>State state_;\<close> leaves in a member whose storage held \<open>storage\<close>.\<close>

fun default_initialised :: "'st State_type \<Rightarrow> 'st \<Rightarrow> 'st" where
  "default_initialised (Trivial z) storage = storage"
| "default_initialised (Constructed v) storage = v"

text \<open>
  \<^verbatim>\<open>Consumer(Channel& ch) : channel_(&ch) { ch.internal_add_consumer(this); }\<close> on storage
  whose \<^verbatim>\<open>state_\<close> part held \<open>storage\<close>.
\<close>

definition Consumer_ctor ::
  "'st State_type \<Rightarrow> 'st \<Rightarrow> addr \<Rightarrow> addr \<Rightarrow> ('st, 'u) world \<Rightarrow> ('st, 'u) world option" where
  "Consumer_ctor T storage this ch w =
     (case consumer_heap w this of
        Some _ \<Rightarrow> None
      | None \<Rightarrow>
          internal_add_consumer ch this
            (w\<lparr>consumer_heap := (consumer_heap w)
               (this \<mapsto> \<lparr>channel = Some ch, state = default_initialised T storage\<rparr>)\<rparr>))"

text \<open>\<^verbatim>\<open>if (channel_) std::erase(channel_->consumers_, this);\<close>\<close>

definition Consumer_dtor :: "addr \<Rightarrow> ('st, 'u) world \<Rightarrow> ('st, 'u) world option" where
  "Consumer_dtor this w =
     (case consumer_heap w this of
        None \<Rightarrow> None
      | Some co \<Rightarrow>
          (case channel co of
             None \<Rightarrow> Some (w\<lparr>consumer_heap := (consumer_heap w)(this := None)\<rparr>)
           | Some ch \<Rightarrow>
               (case channel_heap w ch of
                  None \<Rightarrow> None
                | Some chr \<Rightarrow>
                    Some (w\<lparr>channel_heap :=
                             (channel_heap w)(ch \<mapsto> chr\<lparr>consumers := removeAll this (consumers chr)\<rparr>),
                           consumer_heap := (consumer_heap w)(this := None)\<rparr>))))"

text \<open>\<^verbatim>\<open>on_new_state(s); state_ = s;\<close>\<close>

definition Consumer_internal_produce ::
  "('st, 'u) hook \<Rightarrow> 'st \<Rightarrow> addr \<Rightarrow> ('st, 'u) world \<Rightarrow> ('st, 'u) world option" where
  "Consumer_internal_produce on_new_state s this w =
     (case consumer_heap w this of
        None \<Rightarrow> None
      | Some co \<Rightarrow>
          (let w1 = w\<lparr>observed := on_new_state this s w\<rparr> in
           Some (w1\<lparr>consumer_heap := (consumer_heap w1)(this \<mapsto> co\<lparr>state := s\<rparr>)\<rparr>)))"

subsection \<open>Broadcast\<close>

text \<open>\<^verbatim>\<open>for (auto* cons : consumers_) cons->internal_produce(s);\<close>\<close>

definition Channel_internal_produce ::
  "('st, 'u) hook \<Rightarrow> 'st \<Rightarrow> addr \<Rightarrow> ('st, 'u) world \<Rightarrow> ('st, 'u) world option" where
  "Channel_internal_produce on_new_state s this w =
     (case channel_heap w this of
        None \<Rightarrow> None
      | Some ch \<Rightarrow> for_each (Consumer_internal_produce on_new_state s) (consumers ch) w)"

text \<open>\<^verbatim>\<open>for (auto* chan : channels_) chan->internal_produce(s);\<close>\<close>

definition produce ::
  "('st, 'u) hook \<Rightarrow> addr \<Rightarrow> 'st \<Rightarrow> ('st, 'u) world \<Rightarrow> ('st, 'u) world option" where
  "produce on_new_state this s w =
     (case producer_heap w this of
        None \<Rightarrow> None
      | Some pr \<Rightarrow> for_each (Channel_internal_produce on_new_state s) (channels pr) w)"

subsection \<open>Producer\<close>

text \<open>\<^verbatim>\<open>Producer(Channel& ch) { ch.set_producer(this); }\<close>\<close>

definition Producer_ctor :: "addr \<Rightarrow> addr \<Rightarrow> ('st, 'u) world \<Rightarrow> ('st, 'u) world option" where
  "Producer_ctor this ch w =
     (case producer_heap w this of
        Some _ \<Rightarrow> None
      | None \<Rightarrow>
          set_producer ch (Some this)
            (w\<lparr>producer_heap := (producer_heap w)(this \<mapsto> \<lparr>channels = []\<rparr>)\<rparr>))"

text \<open>\<^verbatim>\<open>for (auto* ch : channels_) ch->set_producer(nullptr);\<close>\<close>

definition Producer_dtor :: "addr \<Rightarrow> ('st, 'u) world \<Rightarrow> ('st, 'u) world option" where
  "Producer_dtor this w =
     (case producer_heap w this of
        None \<Rightarrow> None
      | Some pr \<Rightarrow>
          (case for_each (\<lambda>ch. set_producer ch None) (channels pr) w of
             None \<Rightarrow> None
           | Some w1 \<Rightarrow> Some (w1\<lparr>producer_heap := (producer_heap w1)(this := None)\<rparr>)))"

text \<open>\<^verbatim>\<open>std::erase(channels_, &ch);\<close>\<close>

definition internal_remove_channel ::
  "addr \<Rightarrow> addr \<Rightarrow> ('st, 'u) world \<Rightarrow> ('st, 'u) world option" where
  "internal_remove_channel this ch w =
     (case producer_heap w this of
        None \<Rightarrow> None
      | Some pr \<Rightarrow>
          Some (w\<lparr>producer_heap :=
            (producer_heap w)(this \<mapsto> pr\<lparr>channels := removeAll ch (channels pr)\<rparr>)\<rparr>))"

subsection \<open>Channel destruction\<close>

text \<open>The body of the first loop of \<^verbatim>\<open>~Channel\<close>: \<^verbatim>\<open>c->channel_ = nullptr;\<close>\<close>

definition clear_channel :: "addr \<Rightarrow> ('st, 'u) world \<Rightarrow> ('st, 'u) world option" where
  "clear_channel c w =
     (case consumer_heap w c of
        None \<Rightarrow> None
      | Some co \<Rightarrow> Some (w\<lparr>consumer_heap := (consumer_heap w)(c \<mapsto> co\<lparr>channel := None\<rparr>)\<rparr>))"

text \<open>
  \<^verbatim>\<open>for (auto* c : consumers_) c->channel_ = nullptr;\<close>
  \<^verbatim>\<open>if (producer_) producer_->internal_remove_channel(*this);\<close>
\<close>

definition Channel_dtor :: "addr \<Rightarrow> ('st, 'u) world \<Rightarrow> ('st, 'u) world option" where
  "Channel_dtor this w =
     (case channel_heap w this of
        None \<Rightarrow> None
      | Some ch \<Rightarrow>
          (case for_each clear_channel (consumers ch) w of
             None \<Rightarrow> None
           | Some w1 \<Rightarrow>
               (case (case producer ch of
                        None \<Rightarrow> Some w1
                      | Some p \<Rightarrow> internal_remove_channel p this w1) of
                  None \<Rightarrow> None
                | Some w2 \<Rightarrow> Some (w2\<lparr>channel_heap := (channel_heap w2)(this := None)\<rparr>))))"

subsection \<open>Sequences of operations\<close>

text \<open>
  \<open>New_Consumer a ch g\<close> constructs a consumer at \<open>a\<close> on storage whose \<^verbatim>\<open>state_\<close> part held
  \<open>g\<close>. The \<^verbatim>\<open>State\<close> type is the same for the whole run.
\<close>

datatype 'st operation =
    New_Channel addr
  | Delete_Channel addr
  | Set_producer addr "addr option"
  | New_Producer addr addr
  | Delete_Producer addr
  | New_Consumer addr addr 'st
  | Delete_Consumer addr
  | Produce addr 'st

fun step ::
  "('st, 'u) hook \<Rightarrow> 'st State_type \<Rightarrow> 'st operation \<Rightarrow> ('st, 'u) world \<Rightarrow> ('st, 'u) world option" where
  "step h d (New_Channel a) w = Channel_ctor a w"
| "step h d (Delete_Channel a) w = Channel_dtor a w"
| "step h d (Set_producer a p) w = set_producer a p w"
| "step h d (New_Producer a ch) w = Producer_ctor a ch w"
| "step h d (Delete_Producer a) w = Producer_dtor a w"
| "step h d (New_Consumer a ch g) w = Consumer_ctor d g a ch w"
| "step h d (Delete_Consumer a) w = Consumer_dtor a w"
| "step h d (Produce a s) w = produce h a s w"

definition run ::
  "('st, 'u) hook \<Rightarrow> 'st State_type \<Rightarrow> 'st operation list \<Rightarrow> ('st, 'u) world \<Rightarrow> ('st, 'u) world option" where
  "run h d ops w = for_each (step h d) ops w"

subsection \<open>Consistency of the associations\<close>

text \<open>
  The part of the mutual invariant that every operation keeps: a channel's consumers are
  live and point back to it, a channel's producer is live and lists the channel, and a
  consumer's channel is live and lists the consumer. Nothing is said about the entries of
  a producer's \<open>channels\<close>.
\<close>

definition consistent :: "('st, 'u) world \<Rightarrow> bool" where
  "consistent w \<longleftrightarrow>
     (\<forall>ch chr. channel_heap w ch = Some chr \<longrightarrow>
        (\<forall>c \<in> set (consumers chr). \<exists>co. consumer_heap w c = Some co \<and> channel co = Some ch) \<and>
        (\<forall>p. producer chr = Some p \<longrightarrow>
           (\<exists>pr. producer_heap w p = Some pr \<and> ch \<in> set (channels pr)))) \<and>
     (\<forall>c co ch. consumer_heap w c = Some co \<longrightarrow> channel co = Some ch \<longrightarrow>
        (\<exists>chr. channel_heap w ch = Some chr \<and> c \<in> set (consumers chr)))"

text \<open>Every entry of the producer's \<open>channels\<close> is a live channel.\<close>

definition channels_live :: "('st, 'u) world \<Rightarrow> addr \<Rightarrow> bool" where
  "channels_live w p \<longleftrightarrow>
     (\<exists>pr. producer_heap w p = Some pr \<and>
        (\<forall>ch \<in> set (channels pr). channel_heap w ch \<noteq> None))"

subsection \<open>The order of delivery\<close>

text \<open>
  The order the specification gives for one broadcast: the producer's channels in linkage
  order and, within each channel, its consumers in registration order.
\<close>

definition delivery_order :: "('st, 'u) world \<Rightarrow> addr list \<Rightarrow> addr list" where
  "delivery_order w chs =
     concat (map (\<lambda>ch. case channel_heap w ch of None \<Rightarrow> [] | Some chr \<Rightarrow> consumers chr) chs)"

subsection \<open>A logging hook and an example graph\<close>

text \<open>
  An override of \<^verbatim>\<open>on_new_state\<close> that appends \<^verbatim>\<open>(this, state(), s)\<close> to a log: what
  \<^verbatim>\<open>state()\<close> returns while the hook runs is read from the world the hook is given.
\<close>

type_synonym 'st log = "(addr \<times> 'st option \<times> 'st) list"

definition log_hook :: "('st, 'st log) hook" where
  "log_hook this s w = observed w @ [(this, Consumer_state w this, s)]"

text \<open>
  Two channels, two producers and three consumers: producer 1 is built on channel 1,
  producer 0 on channel 0, channel 1 is then rebound to producer 0, and consumers 0 and 1
  register on channel 0, consumer 2 on channel 1.
\<close>

definition example_ops :: "nat operation list" where
  "example_ops =
     [New_Channel 0, New_Channel 1, New_Producer 1 1, New_Producer 0 0,
      Set_producer 1 (Some 0), New_Consumer 0 0 171, New_Consumer 1 0 171, New_Consumer 2 1 171]"

definition example_world :: "(nat, nat log) world" where
  "example_world =
     \<lparr>channel_heap = [0 \<mapsto> \<lparr>consumers = [0, 1], producer = Some 0\<rparr>,
                      1 \<mapsto> \<lparr>consumers = [2], producer = Some 0\<rparr>],
      producer_heap = [0 \<mapsto> \<lparr>channels = [0, 1]\<rparr>, 1 \<mapsto> \<lparr>channels = [1]\<rparr>],
      consumer_heap = [0 \<mapsto> \<lparr>channel = Some 0, state = 0\<rparr>,
                       1 \<mapsto> \<lparr>channel = Some 0, state = 0\<rparr>,
                       2 \<mapsto> \<lparr>channel = Some 1, state = 0\<rparr>],
      observed = []\<rparr>"

text \<open>
  A channel is bound to producer 0, rebound to producer 1 by the second constructor, and
  destroyed.
\<close>

definition dangling_ops :: "nat operation list" where
  "dangling_ops = [New_Channel 0, New_Producer 0 0, New_Producer 1 0, Delete_Channel 0]"

text \<open>
  A producer is built on channel 1, the channel is unbound and destroyed, and the
  producer is then made the producer of a new channel 0 with two consumers.
\<close>

definition stale_ops :: "nat operation list" where
  "stale_ops =
     [New_Channel 1, New_Producer 0 1, Set_producer 1 None, Delete_Channel 1,
      New_Channel 0, Set_producer 0 (Some 0), New_Consumer 0 0 171, New_Consumer 1 0 171]"

text \<open>A channel with a producer and a consumer is unbound and destroyed.\<close>

definition severed_ops :: "nat operation list" where
  "severed_ops =
     [New_Channel 0, New_Producer 0 0, New_Consumer 0 0 171, Set_producer 0 None,
      Delete_Channel 0]"


section \<open>Loops\<close>

lemma for_each_append:
  "for_each f (xs @ ys) w = (case for_each f xs w of None \<Rightarrow> None | Some w' \<Rightarrow> for_each f ys w')"
  by (induction xs arbitrary: w) (auto split: option.splits)

lemma for_each_clear_channel:
  "for_each clear_channel cs w =
     (if \<forall>c \<in> set cs. consumer_heap w c \<noteq> None
      then Some (w\<lparr>consumer_heap := (\<lambda>a. if a \<in> set cs
                      then map_option (\<lambda>co. co\<lparr>channel := None\<rparr>) (consumer_heap w a)
                      else consumer_heap w a)\<rparr>)
      else None)"
proof (induction cs arbitrary: w)
  case Nil
  show ?case by simp
next
  case (Cons c cs)
  show ?case
  proof (cases "consumer_heap w c")
    case None
    then show ?thesis by (simp add: clear_channel_def)
  next
    case (Some co)
    have hd: "clear_channel c w = Some (w\<lparr>consumer_heap := (consumer_heap w)(c \<mapsto> co\<lparr>channel := None\<rparr>)\<rparr>)"
      using Some by (simp add: clear_channel_def)
    show ?thesis
      using Some by (auto simp: hd Cons.IH fun_eq_iff intro!: world.equality)
  qed
qed

lemma for_each_unset_producer:
  "for_each (\<lambda>ch. set_producer ch None) chs w =
     (if \<forall>ch \<in> set chs. channel_heap w ch \<noteq> None
      then Some (w\<lparr>channel_heap := (\<lambda>a. if a \<in> set chs
                      then map_option (\<lambda>chr. chr\<lparr>producer := None\<rparr>) (channel_heap w a)
                      else channel_heap w a)\<rparr>)
      else None)"
proof (induction chs arbitrary: w)
  case Nil
  show ?case by simp
next
  case (Cons c cs)
  show ?case
  proof (cases "channel_heap w c")
    case None
    then show ?thesis by (simp add: set_producer_def)
  next
    case (Some chr)
    have hd: "set_producer c None w = Some (w\<lparr>channel_heap := (channel_heap w)(c \<mapsto> chr\<lparr>producer := None\<rparr>)\<rparr>)"
      using Some by (simp add: set_producer_def)
    show ?thesis
      using Some by (auto simp: hd Cons.IH fun_eq_iff intro!: world.equality)
  qed
qed

lemma for_each_invariant:
  assumes "for_each f xs w = Some w'" and "P w"
    and "\<And>x v v'. x \<in> set xs \<Longrightarrow> P v \<Longrightarrow> f x v = Some v' \<Longrightarrow> P v'"
  shows "P w'"
  using assms
proof (induction xs arbitrary: w)
  case Nil
  then show ?case by simp
next
  case (Cons x xs)
  from Cons.prems(1) obtain v where v: "f x w = Some v" and rest: "for_each f xs v = Some w'"
    by (auto split: option.splits)
  have Pv: "P v"
    by (rule Cons.prems(3)[OF _ Cons.prems(2) v]) simp
  show ?case
  proof (rule Cons.IH[OF rest Pv])
    fix y u u'
    assume "y \<in> set xs" "P u" "f y u = Some u'"
    then show "P u'" using Cons.prems(3)[of y u u'] by simp
  qed
qed

section \<open>Consistency: introduction and destruction\<close>

lemma consistentI:
  assumes "\<And>ch chr c. channel_heap w ch = Some chr \<Longrightarrow> c \<in> set (consumers chr) \<Longrightarrow>
             \<exists>co. consumer_heap w c = Some co \<and> channel co = Some ch"
    and "\<And>ch chr p. channel_heap w ch = Some chr \<Longrightarrow> producer chr = Some p \<Longrightarrow>
             \<exists>pr. producer_heap w p = Some pr \<and> ch \<in> set (channels pr)"
    and "\<And>c co ch. consumer_heap w c = Some co \<Longrightarrow> channel co = Some ch \<Longrightarrow>
             \<exists>chr. channel_heap w ch = Some chr \<and> c \<in> set (consumers chr)"
  shows "consistent w"
  unfolding consistent_def using assms by blast

lemma consistent_consumers:
  "consistent w \<Longrightarrow> channel_heap w ch = Some chr \<Longrightarrow> c \<in> set (consumers chr) \<Longrightarrow>
     \<exists>co. consumer_heap w c = Some co \<and> channel co = Some ch"
  unfolding consistent_def by blast

lemma consistent_producer:
  "consistent w \<Longrightarrow> channel_heap w ch = Some chr \<Longrightarrow> producer chr = Some p \<Longrightarrow>
     \<exists>pr. producer_heap w p = Some pr \<and> ch \<in> set (channels pr)"
  unfolding consistent_def by blast

lemma consistent_channel:
  "consistent w \<Longrightarrow> consumer_heap w c = Some co \<Longrightarrow> channel co = Some ch \<Longrightarrow>
     \<exists>chr. channel_heap w ch = Some chr \<and> c \<in> set (consumers chr)"
  unfolding consistent_def by blast

section \<open>Broadcast\<close>

lemma Consumer_internal_produce_Some:
  assumes "Consumer_internal_produce h s c w = Some w'"
  shows "\<exists>co. consumer_heap w c = Some co \<and>
           w' = w\<lparr>observed := h c s w, consumer_heap := (consumer_heap w)(c \<mapsto> co\<lparr>state := s\<rparr>)\<rparr>"
  using assms by (cases "consumer_heap w c") (auto simp: Consumer_internal_produce_def Let_def)

lemma consumer_loop_Some:
  assumes "for_each (Consumer_internal_produce h s) cs w = Some w'"
  shows "channel_heap w' = channel_heap w \<and> producer_heap w' = producer_heap w \<and>
         consumer_heap w' =
           (\<lambda>x. if x \<in> set cs then map_option (\<lambda>co. co\<lparr>state := s\<rparr>) (consumer_heap w x)
                 else consumer_heap w x)"
  using assms
proof (induction cs arbitrary: w)
  case Nil
  then show ?case by simp
next
  case (Cons c cs)
  from Cons.prems obtain v where v: "Consumer_internal_produce h s c w = Some v"
    and rest: "for_each (Consumer_internal_produce h s) cs v = Some w'"
    by (auto split: option.splits)
  from Consumer_internal_produce_Some[OF v] obtain co where co: "consumer_heap w c = Some co"
    and v': "v = w\<lparr>observed := h c s w, consumer_heap := (consumer_heap w)(c \<mapsto> co\<lparr>state := s\<rparr>)\<rparr>"
    by blast
  from Cons.IH[OF rest] show ?case
    using co by (auto simp: v' fun_eq_iff)
qed

lemma consumer_loop_defined:
  assumes "\<forall>c \<in> set cs. consumer_heap w c \<noteq> None"
  shows "\<exists>w'. for_each (Consumer_internal_produce h s) cs w = Some w'"
  using assms
proof (induction cs arbitrary: w)
  case Nil
  then show ?case by simp
next
  case (Cons c cs)
  then obtain co where co: "consumer_heap w c = Some co" by auto
  let ?v = "w\<lparr>observed := h c s w, consumer_heap := (consumer_heap w)(c \<mapsto> co\<lparr>state := s\<rparr>)\<rparr>"
  have v: "Consumer_internal_produce h s c w = Some ?v"
    using co by (simp add: Consumer_internal_produce_def Let_def)
  have "\<forall>x \<in> set cs. consumer_heap ?v x \<noteq> None"
    using Cons.prems by auto
  from Cons.IH[OF this] show ?case
    by (simp add: v)
qed

lemma delivery_order_cong:
  "channel_heap v = channel_heap w \<Longrightarrow> delivery_order v chs = delivery_order w chs"
  by (simp add: delivery_order_def)

lemma channel_loop_flat:
  assumes "\<forall>ch \<in> set chs. channel_heap w ch \<noteq> None"
  shows "for_each (Channel_internal_produce h s) chs w =
         for_each (Consumer_internal_produce h s) (delivery_order w chs) w"
  using assms
proof (induction chs arbitrary: w)
  case Nil
  then show ?case by (simp add: delivery_order_def)
next
  case (Cons ch chs)
  then obtain chr where chr: "channel_heap w ch = Some chr" by auto
  have split: "delivery_order w (ch # chs) = consumers chr @ delivery_order w chs"
    using chr by (simp add: delivery_order_def)
  have hd: "Channel_internal_produce h s ch w =
            for_each (Consumer_internal_produce h s) (consumers chr) w"
    using chr by (simp add: Channel_internal_produce_def)
  show ?case
  proof (cases "for_each (Consumer_internal_produce h s) (consumers chr) w")
    case None
    then show ?thesis by (simp add: hd split for_each_append)
  next
    case (Some v)
    from consumer_loop_Some[OF Some] have same: "channel_heap v = channel_heap w" by simp
    have "\<forall>x \<in> set chs. channel_heap v x \<noteq> None"
      using Cons.prems same by simp
    from Cons.IH[OF this] show ?thesis
      by (simp add: hd split for_each_append Some delivery_order_cong[OF same])
  qed
qed

lemma channel_loop_dead:
  assumes "for_each (Channel_internal_produce h s) chs w = Some w'"
  shows "\<forall>ch \<in> set chs. channel_heap w ch \<noteq> None"
  using assms
proof (induction chs arbitrary: w)
  case Nil
  then show ?case by simp
next
  case (Cons ch chs)
  from Cons.prems obtain v where v: "Channel_internal_produce h s ch w = Some v"
    and rest: "for_each (Channel_internal_produce h s) chs v = Some w'"
    by (auto split: option.splits)
  from v obtain chr where chr: "channel_heap w ch = Some chr"
    and loop: "for_each (Consumer_internal_produce h s) (consumers chr) w = Some v"
    by (auto simp: Channel_internal_produce_def split: option.splits)
  from consumer_loop_Some[OF loop] have same: "channel_heap v = channel_heap w" by simp
  from Cons.IH[OF rest] chr show ?case by (simp add: same)
qed

lemma produce_Some:
  assumes "produce h p s w = Some w'"
  shows "\<exists>pr. producer_heap w p = Some pr \<and>
           (\<forall>ch \<in> set (channels pr). channel_heap w ch \<noteq> None) \<and>
           channel_heap w' = channel_heap w \<and> producer_heap w' = producer_heap w \<and>
           consumer_heap w' =
             (\<lambda>x. if x \<in> set (delivery_order w (channels pr))
                   then map_option (\<lambda>co. co\<lparr>state := s\<rparr>) (consumer_heap w x)
                   else consumer_heap w x)"
proof -
  from assms obtain pr where pr: "producer_heap w p = Some pr"
    and loop: "for_each (Channel_internal_produce h s) (channels pr) w = Some w'"
    by (auto simp: produce_def split: option.splits)
  from channel_loop_dead[OF loop] have live: "\<forall>ch \<in> set (channels pr). channel_heap w ch \<noteq> None" .
  from loop channel_loop_flat[OF live, of h s]
  have "for_each (Consumer_internal_produce h s) (delivery_order w (channels pr)) w = Some w'"
    by simp
  from consumer_loop_Some[OF this] pr live show ?thesis by simp
qed

lemma in_delivery_order:
  "c \<in> set (delivery_order w chs) \<longleftrightarrow>
     (\<exists>ch \<in> set chs. \<exists>chr. channel_heap w ch = Some chr \<and> c \<in> set (consumers chr))"
  by (induction chs) (auto simp: delivery_order_def split: option.splits)

lemma produce_flat:
  assumes "producer_heap w p = Some pr"
    and "\<forall>ch \<in> set (channels pr). channel_heap w ch \<noteq> None"
  shows "produce h p s w =
         for_each (Consumer_internal_produce h s) (delivery_order w (channels pr)) w"
  using assms by (simp add: produce_def channel_loop_flat)

lemma produce_defined:
  assumes c: "consistent w" and l: "channels_live w p"
  shows "\<exists>w'. produce h p s w = Some w'"
proof -
  from l obtain pr where pr: "producer_heap w p = Some pr"
    and live: "\<forall>ch \<in> set (channels pr). channel_heap w ch \<noteq> None"
    by (auto simp: channels_live_def)
  have "\<forall>x \<in> set (delivery_order w (channels pr)). consumer_heap w x \<noteq> None"
    using consistent_consumers[OF c] by (fastforce simp: in_delivery_order)
  from consumer_loop_defined[OF this] show ?thesis
    by (simp add: produce_flat[OF pr live])
qed

lemma produce_reaches:
  assumes r: "produce h p s w = Some w'" and c: "consistent w"
    and pr: "producer_heap w p = Some pr" and ch: "ch \<in> set (channels pr)"
    and chr: "channel_heap w ch = Some chr" and x: "x \<in> set (consumers chr)"
  shows "Consumer_state w' x = Some s"
proof -
  from produce_Some[OF r] pr have
    co: "consumer_heap w' =
             (\<lambda>x. if x \<in> set (delivery_order w (channels pr))
                   then map_option (\<lambda>co. co\<lparr>state := s\<rparr>) (consumer_heap w x)
                   else consumer_heap w x)"
    by auto
  have "x \<in> set (delivery_order w (channels pr))"
    using ch chr x by (auto simp: in_delivery_order)
  moreover from consistent_consumers[OF c chr x] obtain xo where "consumer_heap w x = Some xo"
    by blast
  ultimately show ?thesis by (simp add: Consumer_state_def co)
qed

section \<open>Single operations in closed form\<close>

lemma set_producer_None_eq:
  "channel_heap w ch = Some chr \<Longrightarrow>
   set_producer ch None w =
     Some (w\<lparr>channel_heap := (channel_heap w)(ch \<mapsto> chr\<lparr>producer := None\<rparr>)\<rparr>)"
  by (simp add: set_producer_def)

lemma set_producer_Some_eq:
  "channel_heap w ch = Some chr \<Longrightarrow> producer_heap w q = Some pr \<Longrightarrow>
   set_producer ch (Some q) w =
     Some (w\<lparr>channel_heap := (channel_heap w)(ch \<mapsto> chr\<lparr>producer := Some q\<rparr>),
             producer_heap := (producer_heap w)(q \<mapsto> pr\<lparr>channels := channels pr @ [ch]\<rparr>)\<rparr>)"
  by (simp add: set_producer_def Let_def)

lemma Producer_ctor_eq:
  "producer_heap w q = None \<Longrightarrow> channel_heap w ch = Some chr \<Longrightarrow>
   Producer_ctor q ch w =
     Some (w\<lparr>producer_heap := (producer_heap w)(q \<mapsto> \<lparr>channels = [ch]\<rparr>),
             channel_heap := (channel_heap w)(ch \<mapsto> chr\<lparr>producer := Some q\<rparr>)\<rparr>)"
  by (simp add: Producer_ctor_def set_producer_def Let_def)

lemma set_producer_consumer_heap:
  "set_producer ch p w = Some w' \<Longrightarrow> consumer_heap w' = consumer_heap w"
  by (auto simp: set_producer_def Let_def split: option.splits)

lemma Producer_ctor_consumer_heap:
  "Producer_ctor q ch w = Some w' \<Longrightarrow> consumer_heap w' = consumer_heap w"
  by (auto simp: Producer_ctor_def dest!: set_producer_consumer_heap split: option.splits)

lemma Channel_ctor_consumer_heap:
  "Channel_ctor a w = Some w' \<Longrightarrow> consumer_heap w' = consumer_heap w"
  by (auto simp: Channel_ctor_def split: option.splits)

lemma Consumer_ctor_other:
  "Consumer_ctor T g a ch w = Some w' \<Longrightarrow> consumer_heap w c \<noteq> None \<Longrightarrow>
   consumer_heap w' c = consumer_heap w c"
  by (auto simp: Consumer_ctor_def internal_add_consumer_def split: option.splits)

lemma Consumer_dtor_other:
  "Consumer_dtor a w = Some w' \<Longrightarrow> c \<noteq> a \<Longrightarrow> consumer_heap w' c = consumer_heap w c"
  by (auto simp: Consumer_dtor_def split: option.splits)

section \<open>The associations stay consistent\<close>

text \<open>
  Every operation that is defined leads from a consistent world to a consistent world, so
  every world reached from the empty one is consistent.
\<close>

lemma consistent_Channel_ctor:
  assumes c: "consistent w" and r: "Channel_ctor a w = Some w'"
  shows "consistent w'"
proof -
  from r have fresh: "channel_heap w a = None"
    and w': "w' = w\<lparr>channel_heap := (channel_heap w)(a \<mapsto> \<lparr>consumers = [], producer = None\<rparr>)\<rparr>"
    by (auto simp: Channel_ctor_def split: option.splits)
  show ?thesis
  proof (rule consistentI)
    fix ch chr x
    assume "channel_heap w' ch = Some chr" "x \<in> set (consumers chr)"
    then show "\<exists>co. consumer_heap w' x = Some co \<and> channel co = Some ch"
      using consistent_consumers[OF c, of ch chr x] by (auto simp: w' split: if_splits)
  next
    fix ch chr p
    assume "channel_heap w' ch = Some chr" "producer chr = Some p"
    then show "\<exists>pr. producer_heap w' p = Some pr \<and> ch \<in> set (channels pr)"
      using consistent_producer[OF c, of ch chr p] by (auto simp: w' split: if_splits)
  next
    fix x co ch
    assume "consumer_heap w' x = Some co" "channel co = Some ch"
    then show "\<exists>chr. channel_heap w' ch = Some chr \<and> x \<in> set (consumers chr)"
      using consistent_channel[OF c, of x co ch] fresh by (auto simp: w' split: if_splits)
  qed
qed

lemma consistent_set_producer:
  assumes c: "consistent w" and r: "set_producer a p w = Some w'"
  shows "consistent w'"
proof -
  from r obtain chr where a: "channel_heap w a = Some chr"
    by (auto simp: set_producer_def split: option.splits)
  show ?thesis
  proof (cases p)
    case None
    with r a have w': "w' = w\<lparr>channel_heap := (channel_heap w)(a \<mapsto> chr\<lparr>producer := None\<rparr>)\<rparr>"
      by (simp add: set_producer_def)
    show ?thesis
    proof (rule consistentI)
      fix ch chr' x
      assume "channel_heap w' ch = Some chr'" "x \<in> set (consumers chr')"
      then show "\<exists>co. consumer_heap w' x = Some co \<and> channel co = Some ch"
        using consistent_consumers[OF c, of ch _ x] a by (auto simp: w' split: if_splits)
    next
      fix ch chr' q
      assume "channel_heap w' ch = Some chr'" "producer chr' = Some q"
      then show "\<exists>pr. producer_heap w' q = Some pr \<and> ch \<in> set (channels pr)"
        using consistent_producer[OF c, of ch chr' q] by (auto simp: w' split: if_splits)
    next
      fix x co ch
      assume "consumer_heap w' x = Some co" "channel co = Some ch"
      then show "\<exists>chr. channel_heap w' ch = Some chr \<and> x \<in> set (consumers chr)"
        using consistent_channel[OF c, of x co ch] a by (auto simp: w' split: if_splits)
    qed
  next
    case (Some q)
    with r a have "\<exists>pr. producer_heap w q = Some pr \<and>
        w' = w\<lparr>channel_heap := (channel_heap w)(a \<mapsto> chr\<lparr>producer := Some q\<rparr>),
               producer_heap := (producer_heap w)(q \<mapsto> pr\<lparr>channels := channels pr @ [a]\<rparr>)\<rparr>"
      by (cases "producer_heap w q") (auto simp: set_producer_def Let_def)
    then obtain pr where q: "producer_heap w q = Some pr"
      and w': "w' = w\<lparr>channel_heap := (channel_heap w)(a \<mapsto> chr\<lparr>producer := Some q\<rparr>),
                      producer_heap := (producer_heap w)(q \<mapsto> pr\<lparr>channels := channels pr @ [a]\<rparr>)\<rparr>"
      by blast
    show ?thesis
    proof (rule consistentI)
      fix ch chr' x
      assume "channel_heap w' ch = Some chr'" "x \<in> set (consumers chr')"
      then show "\<exists>co. consumer_heap w' x = Some co \<and> channel co = Some ch"
        using consistent_consumers[OF c, of ch _ x] a by (auto simp: w' split: if_splits)
    next
      fix ch chr' q'
      assume "channel_heap w' ch = Some chr'" "producer chr' = Some q'"
      then show "\<exists>pr. producer_heap w' q' = Some pr \<and> ch \<in> set (channels pr)"
        using consistent_producer[OF c, of ch chr' q'] q by (auto simp: w' split: if_splits)
    next
      fix x co ch
      assume "consumer_heap w' x = Some co" "channel co = Some ch"
      then show "\<exists>chr. channel_heap w' ch = Some chr \<and> x \<in> set (consumers chr)"
        using consistent_channel[OF c, of x co ch] a by (auto simp: w' split: if_splits)
    qed
  qed
qed

lemma consistent_add_producer:
  assumes c: "consistent w" and fresh: "producer_heap w a = None"
  shows "consistent (w\<lparr>producer_heap := (producer_heap w)(a \<mapsto> pr)\<rparr>)"
proof (rule consistentI)
  fix ch chr x
  assume "channel_heap (w\<lparr>producer_heap := (producer_heap w)(a \<mapsto> pr)\<rparr>) ch = Some chr"
    "x \<in> set (consumers chr)"
  then show "\<exists>co. consumer_heap (w\<lparr>producer_heap := (producer_heap w)(a \<mapsto> pr)\<rparr>) x = Some co \<and>
      channel co = Some ch"
    using consistent_consumers[OF c, of ch chr x] by simp
next
  fix ch chr p
  assume "channel_heap (w\<lparr>producer_heap := (producer_heap w)(a \<mapsto> pr)\<rparr>) ch = Some chr"
    "producer chr = Some p"
  then show "\<exists>pr'. producer_heap (w\<lparr>producer_heap := (producer_heap w)(a \<mapsto> pr)\<rparr>) p = Some pr' \<and>
      ch \<in> set (channels pr')"
    using consistent_producer[OF c, of ch chr p] fresh by auto
next
  fix x co ch
  assume "consumer_heap (w\<lparr>producer_heap := (producer_heap w)(a \<mapsto> pr)\<rparr>) x = Some co"
    "channel co = Some ch"
  then show "\<exists>chr. channel_heap (w\<lparr>producer_heap := (producer_heap w)(a \<mapsto> pr)\<rparr>) ch = Some chr \<and>
      x \<in> set (consumers chr)"
    using consistent_channel[OF c, of x co ch] by simp
qed

lemma consistent_Producer_ctor:
  assumes c: "consistent w" and r: "Producer_ctor a ch w = Some w'"
  shows "consistent w'"
proof -
  from r have fresh: "producer_heap w a = None"
    and sp: "set_producer ch (Some a) (w\<lparr>producer_heap := (producer_heap w)(a \<mapsto> \<lparr>channels = []\<rparr>)\<rparr>) = Some w'"
    by (auto simp: Producer_ctor_def split: option.splits)
  from consistent_add_producer[OF c fresh] sp show ?thesis
    by (rule consistent_set_producer)
qed

lemma consistent_Consumer_ctor:
  assumes c: "consistent w" and r: "Consumer_ctor T g a ch w = Some w'"
  shows "consistent w'"
proof -
  from r have fresh: "consumer_heap w a = None"
    by (auto simp: Consumer_ctor_def split: option.splits)
  with r have "\<exists>chr. channel_heap w ch = Some chr \<and>
      w' = w\<lparr>consumer_heap := (consumer_heap w)(a \<mapsto> \<lparr>channel = Some ch, state = default_initialised T g\<rparr>),
             channel_heap := (channel_heap w)(ch \<mapsto> chr\<lparr>consumers := consumers chr @ [a]\<rparr>)\<rparr>"
    by (cases "channel_heap w ch") (auto simp: Consumer_ctor_def internal_add_consumer_def)
  then obtain chr where ch: "channel_heap w ch = Some chr"
    and w': "w' = w\<lparr>consumer_heap := (consumer_heap w)(a \<mapsto> \<lparr>channel = Some ch, state = default_initialised T g\<rparr>),
             channel_heap := (channel_heap w)(ch \<mapsto> chr\<lparr>consumers := consumers chr @ [a]\<rparr>)\<rparr>"
    by blast
  show ?thesis
  proof (rule consistentI)
    fix ch' chr' x
    assume "channel_heap w' ch' = Some chr'" "x \<in> set (consumers chr')"
    then show "\<exists>co. consumer_heap w' x = Some co \<and> channel co = Some ch'"
      using consistent_consumers[OF c, of ch' _ x] ch fresh by (auto simp: w' split: if_splits)
  next
    fix ch' chr' p
    assume "channel_heap w' ch' = Some chr'" "producer chr' = Some p"
    then show "\<exists>pr. producer_heap w' p = Some pr \<and> ch' \<in> set (channels pr)"
      using consistent_producer[OF c, of ch' _ p] ch by (auto simp: w' split: if_splits)
  next
    fix x co ch'
    assume "consumer_heap w' x = Some co" "channel co = Some ch'"
    then show "\<exists>chr. channel_heap w' ch' = Some chr \<and> x \<in> set (consumers chr)"
      using consistent_channel[OF c, of x co ch'] ch by (auto simp: w' split: if_splits)
  qed
qed

lemma consistent_Consumer_dtor:
  assumes c: "consistent w" and r: "Consumer_dtor a w = Some w'"
  shows "consistent w'"
proof -
  from r obtain co where a: "consumer_heap w a = Some co"
    by (auto simp: Consumer_dtor_def split: option.splits)
  show ?thesis
  proof (cases "channel co")
    case None
    with r a have w': "w' = w\<lparr>consumer_heap := (consumer_heap w)(a := None)\<rparr>"
      by (simp add: Consumer_dtor_def)
    show ?thesis
    proof (rule consistentI)
      fix ch' chr' x
      assume "channel_heap w' ch' = Some chr'" "x \<in> set (consumers chr')"
      then show "\<exists>co. consumer_heap w' x = Some co \<and> channel co = Some ch'"
        using consistent_consumers[OF c, of ch' chr' x] a None by (auto simp: w')
    next
      fix ch' chr' p
      assume "channel_heap w' ch' = Some chr'" "producer chr' = Some p"
      then show "\<exists>pr. producer_heap w' p = Some pr \<and> ch' \<in> set (channels pr)"
        using consistent_producer[OF c, of ch' chr' p] by (auto simp: w')
    next
      fix x co' ch'
      assume "consumer_heap w' x = Some co'" "channel co' = Some ch'"
      then show "\<exists>chr. channel_heap w' ch' = Some chr \<and> x \<in> set (consumers chr)"
        using consistent_channel[OF c, of x co' ch'] by (auto simp: w' split: if_splits)
    qed
  next
    case (Some ch)
    with r a have "\<exists>chr. channel_heap w ch = Some chr \<and>
        w' = w\<lparr>channel_heap := (channel_heap w)(ch \<mapsto> chr\<lparr>consumers := removeAll a (consumers chr)\<rparr>),
               consumer_heap := (consumer_heap w)(a := None)\<rparr>"
      by (cases "channel_heap w ch") (auto simp: Consumer_dtor_def)
    then obtain chr where ch: "channel_heap w ch = Some chr"
      and w': "w' = w\<lparr>channel_heap := (channel_heap w)(ch \<mapsto> chr\<lparr>consumers := removeAll a (consumers chr)\<rparr>),
               consumer_heap := (consumer_heap w)(a := None)\<rparr>"
      by blast
    show ?thesis
    proof (rule consistentI)
      fix ch' chr' x
      assume "channel_heap w' ch' = Some chr'" "x \<in> set (consumers chr')"
      then show "\<exists>co. consumer_heap w' x = Some co \<and> channel co = Some ch'"
        using consistent_consumers[OF c, of ch' _ x] a Some ch
        by (auto simp: w' split: if_splits)
    next
      fix ch' chr' p
      assume "channel_heap w' ch' = Some chr'" "producer chr' = Some p"
      then show "\<exists>pr. producer_heap w' p = Some pr \<and> ch' \<in> set (channels pr)"
        using consistent_producer[OF c, of ch' _ p] ch by (auto simp: w' split: if_splits)
    next
      fix x co' ch'
      assume "consumer_heap w' x = Some co'" "channel co' = Some ch'"
      then show "\<exists>chr. channel_heap w' ch' = Some chr \<and> x \<in> set (consumers chr)"
        using consistent_channel[OF c, of x co' ch'] ch by (auto simp: w' split: if_splits)
    qed
  qed
qed

lemma consistent_produce:
  assumes c: "consistent w" and r: "produce h p s w = Some w'"
  shows "consistent w'"
proof -
  from produce_Some[OF r] obtain pr where
    pr: "producer_heap w p = Some pr" and
    ch: "channel_heap w' = channel_heap w" and ph: "producer_heap w' = producer_heap w" and
    co: "consumer_heap w' =
             (\<lambda>x. if x \<in> set (delivery_order w (channels pr))
                   then map_option (\<lambda>co. co\<lparr>state := s\<rparr>) (consumer_heap w x)
                   else consumer_heap w x)"
    by (elim exE conjE) (rule that, assumption+)
  show ?thesis
  proof (rule consistentI)
    fix ch' chr' x
    assume "channel_heap w' ch' = Some chr'" "x \<in> set (consumers chr')"
    then show "\<exists>co. consumer_heap w' x = Some co \<and> channel co = Some ch'"
      using consistent_consumers[OF c, of ch' chr' x] by (auto simp: ch co)
  next
    fix ch' chr' q
    assume "channel_heap w' ch' = Some chr'" "producer chr' = Some q"
    then show "\<exists>pr. producer_heap w' q = Some pr \<and> ch' \<in> set (channels pr)"
      using consistent_producer[OF c, of ch' chr' q] by (auto simp: ch ph)
  next
    fix x co' ch'
    assume "consumer_heap w' x = Some co'" "channel co' = Some ch'"
    then show "\<exists>chr. channel_heap w' ch' = Some chr \<and> x \<in> set (consumers chr)"
      using consistent_channel[OF c, of x _ ch'] by (auto simp: ch co split: if_splits)
  qed
qed

lemma Channel_dtor_Some:
  assumes "Channel_dtor a w = Some w'"
  shows "\<exists>chr. channel_heap w a = Some chr \<and>
           (\<forall>c \<in> set (consumers chr). consumer_heap w c \<noteq> None) \<and>
           (\<forall>p. producer chr = Some p \<longrightarrow> producer_heap w p \<noteq> None) \<and>
           channel_heap w' = (channel_heap w)(a := None) \<and>
           consumer_heap w' =
             (\<lambda>x. if x \<in> set (consumers chr)
                   then map_option (\<lambda>co. co\<lparr>channel := None\<rparr>) (consumer_heap w x)
                   else consumer_heap w x) \<and>
           producer_heap w' =
             (\<lambda>q. if producer chr = Some q
                   then map_option (\<lambda>pr. pr\<lparr>channels := removeAll a (channels pr)\<rparr>) (producer_heap w q)
                   else producer_heap w q) \<and>
           observed w' = observed w"
proof -
  from assms obtain chr where chr: "channel_heap w a = Some chr"
    by (auto simp: Channel_dtor_def split: option.splits)
  show ?thesis
  proof (cases "\<forall>c \<in> set (consumers chr). consumer_heap w c \<noteq> None")
    case False
    then have "for_each clear_channel (consumers chr) w = None"
      by (simp add: for_each_clear_channel)
    with assms chr show ?thesis by (simp add: Channel_dtor_def)
  next
    case True
    then have loop: "for_each clear_channel (consumers chr) w =
        Some (w\<lparr>consumer_heap := (\<lambda>x. if x \<in> set (consumers chr)
                   then map_option (\<lambda>co. co\<lparr>channel := None\<rparr>) (consumer_heap w x)
                   else consumer_heap w x)\<rparr>)"
      by (simp add: for_each_clear_channel)
    show ?thesis
    proof (cases "producer chr")
      case None
      with assms chr loop True show ?thesis
        by (auto simp: Channel_dtor_def)
    next
      case (Some p)
      show ?thesis
      proof (cases "producer_heap w p")
        case None
        with assms chr loop Some show ?thesis
          by (simp add: Channel_dtor_def internal_remove_channel_def)
      next
        case pr: (Some pr)
        with assms chr loop Some True show ?thesis
          by (auto simp: Channel_dtor_def internal_remove_channel_def fun_eq_iff)
      qed
    qed
  qed
qed

lemma Channel_dtor_defined:
  assumes c: "consistent w" and a: "channel_heap w a \<noteq> None"
  shows "\<exists>w'. Channel_dtor a w = Some w'"
proof -
  from a obtain chr where chr: "channel_heap w a = Some chr" by auto
  have live: "\<forall>c \<in> set (consumers chr). consumer_heap w c \<noteq> None"
    using consistent_consumers[OF c chr] by auto
  then have loop: "for_each clear_channel (consumers chr) w =
        Some (w\<lparr>consumer_heap := (\<lambda>x. if x \<in> set (consumers chr)
                   then map_option (\<lambda>co. co\<lparr>channel := None\<rparr>) (consumer_heap w x)
                   else consumer_heap w x)\<rparr>)"
    by (simp add: for_each_clear_channel)
  show ?thesis
  proof (cases "producer chr")
    case None
    with chr loop show ?thesis by (simp add: Channel_dtor_def)
  next
    case (Some p)
    with consistent_producer[OF c chr] obtain pr where "producer_heap w p = Some pr" by blast
    with chr loop Some show ?thesis
      by (simp add: Channel_dtor_def internal_remove_channel_def)
  qed
qed

lemma consistent_Channel_dtor:
  assumes c: "consistent w" and r: "Channel_dtor a w = Some w'"
  shows "consistent w'"
proof -
  from Channel_dtor_Some[OF r] obtain chr where
    a: "channel_heap w a = Some chr" and
    ch: "channel_heap w' = (channel_heap w)(a := None)" and
    co: "consumer_heap w' =
             (\<lambda>x. if x \<in> set (consumers chr)
                   then map_option (\<lambda>co. co\<lparr>channel := None\<rparr>) (consumer_heap w x)
                   else consumer_heap w x)" and
    ph: "producer_heap w' =
             (\<lambda>q. if producer chr = Some q
                   then map_option (\<lambda>pr. pr\<lparr>channels := removeAll a (channels pr)\<rparr>) (producer_heap w q)
                   else producer_heap w q)"
    by (elim exE conjE) (rule that, assumption+)
  show ?thesis
  proof (rule consistentI)
    fix ch' chr' x
    assume h: "channel_heap w' ch' = Some chr'" "x \<in> set (consumers chr')"
    then have ne: "ch' \<noteq> a" and old: "channel_heap w ch' = Some chr'"
      by (auto simp: ch split: if_splits)
    from consistent_consumers[OF c old h(2)] obtain xo where
      xo: "consumer_heap w x = Some xo" "channel xo = Some ch'" by blast
    have "x \<notin> set (consumers chr)"
      using consistent_consumers[OF c a, of x] xo ne by auto
    then show "\<exists>co. consumer_heap w' x = Some co \<and> channel co = Some ch'"
      using xo by (simp add: co)
  next
    fix ch' chr' q
    assume h: "channel_heap w' ch' = Some chr'" "producer chr' = Some q"
    then have ne: "ch' \<noteq> a" and old: "channel_heap w ch' = Some chr'"
      by (auto simp: ch split: if_splits)
    from consistent_producer[OF c old h(2)] obtain pr where
      "producer_heap w q = Some pr" "ch' \<in> set (channels pr)" by blast
    then show "\<exists>pr. producer_heap w' q = Some pr \<and> ch' \<in> set (channels pr)"
      using ne by (auto simp: ph)
  next
    fix x co' ch'
    assume h: "consumer_heap w' x = Some co'" "channel co' = Some ch'"
    then have nin: "x \<notin> set (consumers chr)" and old: "consumer_heap w x = Some co'"
      by (auto simp: co split: if_splits)
    from consistent_channel[OF c old h(2)] obtain chr' where
      chr': "channel_heap w ch' = Some chr'" "x \<in> set (consumers chr')" by blast
    with nin a have "ch' \<noteq> a" by auto
    then show "\<exists>chr. channel_heap w' ch' = Some chr \<and> x \<in> set (consumers chr)"
      using chr' by (simp add: ch)
  qed
qed

lemma Producer_dtor_Some:
  assumes "Producer_dtor a w = Some w'"
  shows "\<exists>pr. producer_heap w a = Some pr \<and>
           (\<forall>ch \<in> set (channels pr). channel_heap w ch \<noteq> None) \<and>
           producer_heap w' = (producer_heap w)(a := None) \<and>
           channel_heap w' =
             (\<lambda>x. if x \<in> set (channels pr)
                   then map_option (\<lambda>chr. chr\<lparr>producer := None\<rparr>) (channel_heap w x)
                   else channel_heap w x) \<and>
           consumer_heap w' = consumer_heap w \<and> observed w' = observed w"
proof -
  from assms obtain pr where pr: "producer_heap w a = Some pr"
    by (auto simp: Producer_dtor_def split: option.splits)
  show ?thesis
  proof (cases "\<forall>ch \<in> set (channels pr). channel_heap w ch \<noteq> None")
    case False
    then have "for_each (\<lambda>ch. set_producer ch None) (channels pr) w = None"
      by (simp add: for_each_unset_producer)
    with assms pr show ?thesis by (simp add: Producer_dtor_def)
  next
    case True
    then have "for_each (\<lambda>ch. set_producer ch None) (channels pr) w =
        Some (w\<lparr>channel_heap := (\<lambda>x. if x \<in> set (channels pr)
                   then map_option (\<lambda>chr. chr\<lparr>producer := None\<rparr>) (channel_heap w x)
                   else channel_heap w x)\<rparr>)"
      by (simp add: for_each_unset_producer)
    with assms pr True show ?thesis
      by (auto simp: Producer_dtor_def)
  qed
qed

lemma Producer_dtor_defined:
  assumes "channels_live w a"
  shows "\<exists>w'. Producer_dtor a w = Some w'"
proof -
  from assms obtain pr where pr: "producer_heap w a = Some pr"
    and live: "\<forall>ch \<in> set (channels pr). channel_heap w ch \<noteq> None"
    by (auto simp: channels_live_def)
  from live have "for_each (\<lambda>ch. set_producer ch None) (channels pr) w =
        Some (w\<lparr>channel_heap := (\<lambda>x. if x \<in> set (channels pr)
                   then map_option (\<lambda>chr. chr\<lparr>producer := None\<rparr>) (channel_heap w x)
                   else channel_heap w x)\<rparr>)"
    by (simp add: for_each_unset_producer)
  with pr show ?thesis by (simp add: Producer_dtor_def)
qed

lemma consistent_Producer_dtor:
  assumes c: "consistent w" and r: "Producer_dtor a w = Some w'"
  shows "consistent w'"
proof -
  from Producer_dtor_Some[OF r] obtain pr where
    a: "producer_heap w a = Some pr" and
    ph: "producer_heap w' = (producer_heap w)(a := None)" and
    ch: "channel_heap w' =
             (\<lambda>x. if x \<in> set (channels pr)
                   then map_option (\<lambda>chr. chr\<lparr>producer := None\<rparr>) (channel_heap w x)
                   else channel_heap w x)" and
    co: "consumer_heap w' = consumer_heap w"
    by (elim exE conjE) (rule that, assumption+)
  show ?thesis
  proof (rule consistentI)
    fix ch' chr' x
    assume h: "channel_heap w' ch' = Some chr'" "x \<in> set (consumers chr')"
    then obtain old where "channel_heap w ch' = Some old" "consumers old = consumers chr'"
      by (auto simp: ch split: if_splits)
    then show "\<exists>co. consumer_heap w' x = Some co \<and> channel co = Some ch'"
      using consistent_consumers[OF c, of ch' old x] h(2) by (simp add: co)
  next
    fix ch' chr' q
    assume h: "channel_heap w' ch' = Some chr'" "producer chr' = Some q"
    then have nin: "ch' \<notin> set (channels pr)" and old: "channel_heap w ch' = Some chr'"
      by (auto simp: ch split: if_splits)
    from consistent_producer[OF c old h(2)] obtain qr where
      qr: "producer_heap w q = Some qr" "ch' \<in> set (channels qr)" by blast
    with nin a have "q \<noteq> a" by auto
    then show "\<exists>pr. producer_heap w' q = Some pr \<and> ch' \<in> set (channels pr)"
      using qr by (simp add: ph)
  next
    fix x co' ch'
    assume h: "consumer_heap w' x = Some co'" "channel co' = Some ch'"
    then show "\<exists>chr. channel_heap w' ch' = Some chr \<and> x \<in> set (consumers chr)"
      using consistent_channel[OF c, of x co' ch'] by (auto simp: co ch)
  qed
qed

lemma consistent_step:
  "consistent w \<Longrightarrow> step h d x w = Some w' \<Longrightarrow> consistent w'"
  by (cases x)
     (auto intro: consistent_Channel_ctor consistent_Channel_dtor consistent_set_producer
        consistent_Producer_ctor consistent_Producer_dtor consistent_Consumer_ctor
        consistent_Consumer_dtor consistent_produce)

lemma consistent_run:
  assumes "consistent w" and "run h d xs w = Some w'"
  shows "consistent w'"
  using assms(2) assms(1) unfolding run_def
  by (rule for_each_invariant) (rule consistent_step)

lemma consistent_empty_world: "consistent (empty_world u)"
  by (simp add: consistent_def empty_world_def)

section \<open>A severed consumer\<close>

lemma severed_step:
  assumes c: "consistent w" and co: "consumer_heap w x = Some xo" and sev: "channel xo = None"
    and r: "step h d a w = Some w'" and a: "a \<noteq> Delete_Consumer x"
  shows "consumer_heap w' x = Some xo"
proof (cases a)
  case (New_Channel n)
  with r co show ?thesis by (auto dest: Channel_ctor_consumer_heap)
next
  case (Delete_Channel n)
  with r have d: "Channel_dtor n w = Some w'" by simp
  from Channel_dtor_Some[OF d] obtain chr where
    n: "channel_heap w n = Some chr" and
    h: "consumer_heap w' =
             (\<lambda>x. if x \<in> set (consumers chr)
                   then map_option (\<lambda>co. co\<lparr>channel := None\<rparr>) (consumer_heap w x)
                   else consumer_heap w x)"
    by (elim exE conjE) (rule that, assumption+)
  have "x \<notin> set (consumers chr)"
    using consistent_consumers[OF c n, of x] co sev by auto
  then show ?thesis using co by (simp add: h)
next
  case (Set_producer n p)
  with r co show ?thesis by (auto dest: set_producer_consumer_heap)
next
  case (New_Producer n ch)
  with r co show ?thesis by (auto dest: Producer_ctor_consumer_heap)
next
  case (Delete_Producer n)
  with r have "Producer_dtor n w = Some w'" by simp
  from Producer_dtor_Some[OF this] co show ?thesis by auto
next
  case (New_Consumer n ch g)
  with r co show ?thesis by (auto dest: Consumer_ctor_other[where c = x])
next
  case (Delete_Consumer n)
  with r a co show ?thesis by (auto dest: Consumer_dtor_other[where c = x])
next
  case (Produce p s)
  with r have d: "produce h p s w = Some w'" by simp
  from produce_Some[OF d] obtain pr where
    pr: "producer_heap w p = Some pr" and
    h: "consumer_heap w' =
             (\<lambda>x. if x \<in> set (delivery_order w (channels pr))
                   then map_option (\<lambda>co. co\<lparr>state := s\<rparr>) (consumer_heap w x)
                   else consumer_heap w x)"
    by (elim exE conjE) (rule that, assumption+)
  have "x \<notin> set (delivery_order w (channels pr))"
    using consistent_consumers[OF c, of _ _ x] co sev by (auto simp: in_delivery_order)
  then show ?thesis using co by (simp add: h)
qed

lemma severed_run:
  assumes c: "consistent w" and co: "consumer_heap w x = Some xo" and sev: "channel xo = None"
    and r: "run h d xs w = Some w'" and a: "Delete_Consumer x \<notin> set xs"
  shows "consumer_heap w' x = Some xo"
proof -
  have "consistent w' \<and> consumer_heap w' x = Some xo"
    using r[unfolded run_def]
  proof (rule for_each_invariant)
    show "consistent w \<and> consumer_heap w x = Some xo" using c co by simp
  next
    fix y v v'
    assume "y \<in> set xs" "consistent v \<and> consumer_heap v x = Some xo" "step h d y v = Some v'"
    then show "consistent v' \<and> consumer_heap v' x = Some xo"
      using a sev by (auto intro: consistent_step severed_step)
  qed
  then show ?thesis ..
qed

section \<open>The cached state outside broadcasts\<close>




section \<open>The example graph\<close>

lemmas op_defs =
  run_def Channel_ctor_def Channel_dtor_def set_producer_def Producer_ctor_def
  Producer_dtor_def Consumer_ctor_def Consumer_dtor_def produce_def
  Channel_internal_produce_def Consumer_internal_produce_def internal_add_consumer_def
  internal_remove_channel_def clear_channel_def empty_world_def Let_def

lemma example_world_reachable:
  "run log_hook (Constructed 0) example_ops (empty_world []) = Some example_world"
  by (simp add: op_defs example_ops_def example_world_def fun_upd_twist)

lemma example_world_consistent: "consistent example_world"
  using consistent_empty_world example_world_reachable by (rule consistent_run)

lemma example_world_live: "channels_live example_world 0"
  by (simp add: channels_live_def example_world_def)

lemma example_channel_0:
  "channel_heap example_world 0 = Some \<lparr>consumers = [0, 1], producer = Some 0\<rparr>"
  by (simp add: example_world_def)

lemma example_channel_1:
  "channel_heap example_world 1 = Some \<lparr>consumers = [2], producer = Some 0\<rparr>"
  by (simp add: example_world_def)

lemma example_consumer_2:
  "consumer_heap example_world 2 = Some \<lparr>channel = Some 1, state = 0\<rparr>"
  by (simp add: example_world_def)

section \<open>While the producer's channels are live\<close>

text \<open>
  \<open>~Producer\<close> and \<open>produce\<close> walk the producer's whole \<open>channels\<close>. They are defined as long
  as no entry is a destroyed channel, and then do what the following lemmas say; the
  hypothesis \<open>channels_live\<close> is not kept by the operations.
\<close>

lemma producer_destruction_live_channels:
  assumes c: "consistent w" and chr: "channel_heap w ch = Some chr"
    and p: "producer chr = Some p" and l: "channels_live w p"
  shows "\<exists>w1. Producer_dtor p w = Some w1 \<and> producer_heap w1 p = None \<and>
           Channel_producer w1 ch = Some None \<and>
           Channel_consumers w1 ch = Some (consumers chr) \<and>
           (\<forall>q s. producer_heap w1 q = None \<longrightarrow>
              (\<exists>w2 w3. Producer_ctor q ch w1 = Some w2 \<and>
                 Channel_producer w2 ch = Some (Some q) \<and>
                 produce on_new_state q s w2 = Some w3 \<and>
                 (\<forall>x \<in> set (consumers chr). Consumer_state w3 x = Some s)))"
proof -
  from Producer_dtor_defined[OF l] obtain w1 where r: "Producer_dtor p w = Some w1"
    by blast
  from consistent_producer[OF c chr p] obtain pr where
    pr: "producer_heap w p = Some pr" and mem: "ch \<in> set (channels pr)" by blast
  from Producer_dtor_Some[OF r] pr have
    ph: "producer_heap w1 = (producer_heap w)(p := None)" and
    chh: "channel_heap w1 =
             (\<lambda>x. if x \<in> set (channels pr)
                   then map_option (\<lambda>chr. chr\<lparr>producer := None\<rparr>) (channel_heap w x)
                   else channel_heap w x)"
    by auto
  have ch1: "channel_heap w1 ch = Some (chr\<lparr>producer := None\<rparr>)"
    using mem chr by (simp add: chh)
  have c1: "consistent w1" using c r by (rule consistent_Producer_dtor)
  have rebind: "\<exists>w2 w3. Producer_ctor q ch w1 = Some w2 \<and>
                 Channel_producer w2 ch = Some (Some q) \<and>
                 produce on_new_state q s w2 = Some w3 \<and>
                 (\<forall>x \<in> set (consumers chr). Consumer_state w3 x = Some s)"
    if fresh: "producer_heap w1 q = None" for q s
  proof -
    let ?w2 = "w1\<lparr>producer_heap := (producer_heap w1)(q \<mapsto> \<lparr>channels = [ch]\<rparr>),
                 channel_heap := (channel_heap w1)(ch \<mapsto> chr\<lparr>producer := None, producer := Some q\<rparr>)\<rparr>"
    have w2: "Producer_ctor q ch w1 = Some ?w2"
      using Producer_ctor_eq[OF fresh ch1] by simp
    have c2: "consistent ?w2" using c1 w2 by (rule consistent_Producer_ctor)
    have l2: "channels_live ?w2 q" by (simp add: channels_live_def)
    from produce_defined[OF c2 l2] obtain w3 where w3: "produce on_new_state q s ?w2 = Some w3"
      by blast
    have "\<forall>x \<in> set (consumers chr). Consumer_state w3 x = Some s"
      using produce_reaches[OF w3 c2, of "\<lparr>channels = [ch]\<rparr>" ch "chr\<lparr>producer := None, producer := Some q\<rparr>"]
      by simp
    with w2 w3 show ?thesis by (simp add: Channel_producer_def)
  qed
  from r rebind ch1 show ?thesis
    by (simp add: ph Channel_producer_def Channel_consumers_def)
qed

lemma consumer_destruction_removes:
  assumes c: "consistent w" and chr: "channel_heap w ch = Some chr"
    and x1: "c1 \<in> set (consumers chr)" and x2: "c2 \<in> set (consumers chr)" and ne: "c1 \<noteq> c2"
  shows "\<exists>w1. Consumer_dtor c1 w = Some w1 \<and> consistent w1 \<and>
           Channel_consumers w1 ch = Some (removeAll c1 (consumers chr)) \<and>
           c1 \<notin> set (removeAll c1 (consumers chr)) \<and>
           c2 \<in> set (removeAll c1 (consumers chr)) \<and>
           consumer_heap w1 c2 = consumer_heap w c2 \<and>
           producer_heap w1 = producer_heap w \<and> dom (channel_heap w1) = dom (channel_heap w)"
proof -
  from consistent_consumers[OF c chr x1] obtain co where
    co: "consumer_heap w c1 = Some co" and b: "channel co = Some ch" by blast
  let ?w1 = "w\<lparr>channel_heap := (channel_heap w)(ch \<mapsto> chr\<lparr>consumers := removeAll c1 (consumers chr)\<rparr>),
               consumer_heap := (consumer_heap w)(c1 := None)\<rparr>"
  have r: "Consumer_dtor c1 w = Some ?w1"
    using co b chr by (simp add: Consumer_dtor_def)
  have c1: "consistent ?w1" using c r by (rule consistent_Consumer_dtor)
  have "dom (channel_heap ?w1) = dom (channel_heap w)"
    using chr by auto
  with r c1 x2 ne show ?thesis
    by (simp add: Channel_consumers_def)
qed

lemma produce_after_consumer_destruction:
  assumes c: "consistent w" and chr: "channel_heap w ch = Some chr"
    and x1: "c1 \<in> set (consumers chr)" and x2: "c2 \<in> set (consumers chr)" and ne: "c1 \<noteq> c2"
    and p: "producer chr = Some p" and l: "channels_live w p"
  shows "\<exists>w1. Consumer_dtor c1 w = Some w1 \<and>
           (\<forall>s. \<exists>w2. produce on_new_state p s w1 = Some w2 \<and> Consumer_state w2 c2 = Some s)"
proof -
  from consistent_consumers[OF c chr x1] obtain co where
    co: "consumer_heap w c1 = Some co" and b: "channel co = Some ch" by blast
  let ?w1 = "w\<lparr>channel_heap := (channel_heap w)(ch \<mapsto> chr\<lparr>consumers := removeAll c1 (consumers chr)\<rparr>),
               consumer_heap := (consumer_heap w)(c1 := None)\<rparr>"
  have r: "Consumer_dtor c1 w = Some ?w1"
    using co b chr by (simp add: Consumer_dtor_def)
  have c1: "consistent ?w1" using c r by (rule consistent_Consumer_dtor)
  from consistent_producer[OF c chr p] obtain pr where
    pr: "producer_heap w p = Some pr" and mem: "ch \<in> set (channels pr)" by blast
  have l1: "channels_live ?w1 p"
    using l by (auto simp: channels_live_def)
  have "\<exists>w2. produce on_new_state p s ?w1 = Some w2 \<and> Consumer_state w2 c2 = Some s" for s
  proof -
    from produce_defined[OF c1 l1] obtain w2 where w2: "produce on_new_state p s ?w1 = Some w2"
      by blast
    have "Consumer_state w2 c2 = Some s"
      using produce_reaches[OF w2 c1, of pr ch "chr\<lparr>consumers := removeAll c1 (consumers chr)\<rparr>" c2]
        pr mem x2 ne by simp
    with w2 show ?thesis by blast
  qed
  with r show ?thesis by blast
qed

lemma severed_on_defined_runs:
  assumes c: "consistent w" and co: "consumer_heap w x = Some xo" and b: "channel xo = Some ch"
  shows "\<exists>w1. Channel_dtor ch w = Some w1 \<and>
           (\<forall>ops w2. run h d ops w1 = Some w2 \<longrightarrow> Delete_Consumer x \<notin> set ops \<longrightarrow>
              Consumer_channel w2 x = Some None \<and> Consumer_state w2 x = Some (state xo))"
proof -
  from consistent_channel[OF c co b] obtain chr where
    chr: "channel_heap w ch = Some chr" and x: "x \<in> set (consumers chr)" by blast
  from Channel_dtor_defined[OF c] chr obtain w1 where r: "Channel_dtor ch w = Some w1"
    by auto
  from Channel_dtor_Some[OF r] chr have
    h: "consumer_heap w1 =
             (\<lambda>x. if x \<in> set (consumers chr)
                   then map_option (\<lambda>co. co\<lparr>channel := None\<rparr>) (consumer_heap w x)
                   else consumer_heap w x)"
    by auto
  have new: "consumer_heap w1 x = Some (xo\<lparr>channel := None\<rparr>)"
    using x co by (simp add: h)
  have c1: "consistent w1" using c r by (rule consistent_Channel_dtor)
  have "Consumer_channel w2 x = Some None \<and> Consumer_state w2 x = Some (state xo)"
    if "run h d ops w1 = Some w2" "Delete_Consumer x \<notin> set ops" for ops w2
    using severed_run[OF c1 new _ that] by (simp add: Consumer_channel_def Consumer_state_def)
  with r show ?thesis by blast
qed

lemma set_producer_none_live_channels:
  assumes c: "consistent w" and chr: "channel_heap w ch = Some chr"
    and p: "producer chr = Some p" and l: "channels_live w p"
  shows "\<exists>w1. set_producer ch None w = Some w1 \<and>
           Channel_producer w1 ch = Some None \<and>
           (\<exists>chs. Producer_channels w1 p = Some chs \<and> ch \<in> set chs) \<and>
           (\<forall>s. \<exists>w2. produce on_new_state p s w1 = Some w2 \<and>
              (\<forall>x \<in> set (consumers chr). Consumer_state w2 x = Some s))"
proof -
  let ?w1 = "w\<lparr>channel_heap := (channel_heap w)(ch \<mapsto> chr\<lparr>producer := None\<rparr>)\<rparr>"
  have r: "set_producer ch None w = Some ?w1"
    using chr by (rule set_producer_None_eq)
  have c1: "consistent ?w1" using c r by (rule consistent_set_producer)
  from consistent_producer[OF c chr p] obtain pr where
    pr: "producer_heap w p = Some pr" and mem: "ch \<in> set (channels pr)" by blast
  have l1: "channels_live ?w1 p"
    using l by (auto simp: channels_live_def)
  have "\<exists>w2. produce on_new_state p s ?w1 = Some w2 \<and>
          (\<forall>x \<in> set (consumers chr). Consumer_state w2 x = Some s)" for s
  proof -
    from produce_defined[OF c1 l1] obtain w2 where w2: "produce on_new_state p s ?w1 = Some w2"
      by blast
    have "\<forall>x \<in> set (consumers chr). Consumer_state w2 x = Some s"
      using produce_reaches[OF w2 c1, of pr ch "chr\<lparr>producer := None\<rparr>"] pr mem by simp
    with w2 show ?thesis by blast
  qed
  with r pr mem show ?thesis
    by (simp add: Channel_producer_def Producer_channels_def)
qed

section \<open>The claims\<close>

text \<open>
  Claim C1: after any sequence of constructions, destructions, rebindings and broadcasts,
  no live participant holds a pointer to a destroyed one. The code does not keep this for
  the entries of a producer's \<open>channels\<close>: \<^verbatim>\<open>set_producer\<close> leaves the channel in the list
  of the producer it displaces, and \<^verbatim>\<open>~Channel\<close> removes the channel only from its current
  producer. After \<open>dangling_ops\<close> producer 0 is live and its \<open>channels\<close> holds the destroyed
  channel 0, and a broadcast by producer 0 dereferences it.
\<close>

theorem rebinding_leaves_dangling_channel:
  "map_option (\<lambda>w. (Producer_channels w 0, channel_heap w 0))
     (run default_hook (Constructed (0::nat)) dangling_ops (empty_world ())) = Some (Some [0], None) \<and>
   run default_hook (Constructed (0::nat)) (dangling_ops @ [Produce 0 5]) (empty_world ()) = None"
  by (simp add: op_defs dangling_ops_def Producer_channels_def)

text \<open>
  Claim C2: when the producer's channels are all live, \<open>produce\<close> is defined, every
  consumer registered on one of these channels has the produced state afterwards, and the
  deliveries are those of one loop over \<open>delivery_order\<close>: the channels in linkage order
  and, within each channel, the consumers in registration order.
\<close>

theorem produce_fan_out:
  assumes c: "consistent w" and pr: "producer_heap w p = Some pr"
    and live: "\<forall>ch \<in> set (channels pr). channel_heap w ch \<noteq> None"
  shows "\<exists>w'. produce on_new_state p s w = Some w' \<and>
           (\<forall>ch \<in> set (channels pr). \<forall>cs. Channel_consumers w ch = Some cs \<longrightarrow>
              (\<forall>x \<in> set cs. Consumer_state w' x = Some s)) \<and>
           for_each (Consumer_internal_produce on_new_state s)
             (delivery_order w (channels pr)) w = Some w'"
proof -
  have "channels_live w p" using pr live by (simp add: channels_live_def)
  from produce_defined[OF c this] obtain w' where r: "produce on_new_state p s w = Some w'"
    by blast
  have "\<forall>ch \<in> set (channels pr). \<forall>cs. Channel_consumers w ch = Some cs \<longrightarrow>
              (\<forall>x \<in> set cs. Consumer_state w' x = Some s)"
    using produce_reaches[OF r c pr] by (auto simp: Channel_consumers_def)
  moreover have "for_each (Consumer_internal_produce on_new_state s)
             (delivery_order w (channels pr)) w = Some w'"
    using r produce_flat[OF pr live, of on_new_state s] by simp
  ultimately show ?thesis using r by blast
qed

theorem produce_fan_out_witness:
  "consistent example_world \<and> Producer_channels example_world 0 = Some [0, 1] \<and>
   (\<exists>w'. produce log_hook 0 7 example_world = Some w' \<and>
      Consumer_state w' 0 = Some 7 \<and> Consumer_state w' 1 = Some 7 \<and>
      Consumer_state w' 2 = Some 7 \<and>
      observed w' = [(0, Some 0, 7), (1, Some 0, 7), (2, Some 0, 7)])"
proof -
  have pr: "producer_heap example_world 0 = Some \<lparr>channels = [0, 1]\<rparr>"
    by (simp add: example_world_def)
  have live: "\<forall>ch \<in> set (channels \<lparr>channels = [0, 1]\<rparr>). channel_heap example_world ch \<noteq> None"
    by (simp add: example_world_def)
  from produce_fan_out[OF example_world_consistent pr live, of log_hook 7]
  obtain w' where r: "produce log_hook 0 7 example_world = Some w'"
    and s: "\<forall>ch \<in> set [0, 1]. \<forall>cs. Channel_consumers example_world ch = Some cs \<longrightarrow>
              (\<forall>x \<in> set cs. Consumer_state w' x = Some 7)"
    and flat: "for_each (Consumer_internal_produce log_hook 7)
             (delivery_order example_world [0, 1]) example_world = Some w'"
    by auto
  have "delivery_order example_world [0, 1] = [0, 1, 2]"
    by (simp add: delivery_order_def example_world_def)
  with flat have "observed w' = [(0, Some 0, 7), (1, Some 0, 7), (2, Some 0, 7)]"
    by (auto simp: Consumer_internal_produce_def log_hook_def Consumer_state_def
        example_world_def Let_def)
  moreover from s have "Consumer_state w' 0 = Some 7 \<and> Consumer_state w' 1 = Some 7 \<and>
      Consumer_state w' 2 = Some 7"
    by (simp add: Channel_consumers_def example_world_def)
  ultimately show ?thesis
    using r example_world_consistent pr by (auto simp: Producer_channels_def)
qed

text \<open>
  Claim C3: \<^verbatim>\<open>Consumer::internal_produce\<close> runs the hook \<^verbatim>\<open>on_new_state\<close> in the world in
  which \<^verbatim>\<open>state()\<close> is still the previous cached value, and the cached state is the
  delivered one once the delivery is done.
\<close>

theorem on_new_state_sees_previous_state:
  assumes "consumer_heap w c = Some co"
  shows "\<exists>w'. Consumer_internal_produce on_new_state s c w = Some w' \<and>
           observed w' = on_new_state c s w \<and>
           Consumer_state w c = Some (state co) \<and>
           Consumer_state w' c = Some s"
  using assms by (simp add: Consumer_internal_produce_def Consumer_state_def Let_def)

theorem on_new_state_sees_previous_state_witness:
  "Consumer_state example_world 2 = Some 0 \<and>
   (\<exists>w'. Consumer_internal_produce log_hook 9 2 example_world = Some w' \<and>
      observed w' = [(2, Some 0, 9)] \<and> Consumer_state w' 2 = Some 9)"
  using on_new_state_sees_previous_state[OF example_consumer_2, of log_hook 9]
  by (auto simp: log_hook_def Consumer_state_def example_world_def)




text \<open>
  Claim C5: destroying a channel is defined, and a consumer that was registered on it is
  still live afterwards, its \<^verbatim>\<open>channel()\<close> is \<^verbatim>\<open>nullptr\<close>, its \<^verbatim>\<open>state()\<close> is what it was, and
  it can be destroyed in turn.
\<close>

theorem channel_destruction_severs_consumers:
  assumes c: "consistent w" and chr: "channel_heap w ch = Some chr"
    and x: "x \<in> set (consumers chr)"
  shows "\<exists>w'. Channel_dtor ch w = Some w' \<and> channel_heap w' ch = None \<and>
           Consumer_channel w' x = Some None \<and>
           Consumer_state w' x = Consumer_state w x \<and> Consumer_state w' x \<noteq> None \<and>
           (\<exists>w''. Consumer_dtor x w' = Some w'')"
proof -
  from Channel_dtor_defined[OF c] chr obtain w' where r: "Channel_dtor ch w = Some w'"
    by auto
  from Channel_dtor_Some[OF r] chr have
    ch: "channel_heap w' = (channel_heap w)(ch := None)" and
    co: "consumer_heap w' =
             (\<lambda>x. if x \<in> set (consumers chr)
                   then map_option (\<lambda>co. co\<lparr>channel := None\<rparr>) (consumer_heap w x)
                   else consumer_heap w x)"
    by auto
  from consistent_consumers[OF c chr x] obtain xo where xo: "consumer_heap w x = Some xo"
    by blast
  have new: "consumer_heap w' x = Some (xo\<lparr>channel := None\<rparr>)"
    using x xo by (simp add: co)
  have "Consumer_dtor x w' = Some (w'\<lparr>consumer_heap := (consumer_heap w')(x := None)\<rparr>)"
    by (simp add: Consumer_dtor_def new)
  then show ?thesis
    using r xo new by (simp add: ch Consumer_channel_def Consumer_state_def)
qed

theorem channel_destruction_severs_consumers_witness:
  "consistent example_world \<and> Channel_consumers example_world 0 = Some [0, 1] \<and>
   Consumer_channel example_world 1 = Some (Some 0) \<and>
   (\<exists>w'. Channel_dtor 0 example_world = Some w' \<and> channel_heap w' 0 = None \<and>
      Consumer_channel w' 1 = Some None \<and> Consumer_state w' 1 = Some 0 \<and>
      (\<exists>w''. Consumer_dtor 1 w' = Some w''))"
proof -
  have x: "1 \<in> set (consumers \<lparr>consumers = [0, 1], producer = Some 0\<rparr>)" by simp
  from channel_destruction_severs_consumers[OF example_world_consistent example_channel_0 x]
  show ?thesis
    using example_world_consistent
    by (auto simp: Channel_consumers_def Consumer_channel_def Consumer_state_def example_world_def)
qed

text \<open>
  Claim C6: for every channel whose producer is \<open>p\<close>, destroying \<open>p\<close> leaves the channel with
  no producer and with the same consumers, and the channel can be given a new producer.
  The code does not do this when \<open>p\<close> still lists a destroyed channel: after \<open>stale_ops\<close>
  channel 0 has producer 0, producer 0 lists the destroyed channel 1 before channel 0, and
  \<^verbatim>\<open>~Producer\<close> calls \<^verbatim>\<open>set_producer\<close> on the destroyed channel.
\<close>

theorem producer_destruction_undefined_on_stale_link:
  "map_option (\<lambda>w. (Channel_producer w 0, Producer_channels w 0, channel_heap w 1))
     (run default_hook (Constructed 0) stale_ops (empty_world ())) =
       Some (Some (Some 0), Some [1, 0], None) \<and>
   run default_hook (Constructed 0) (stale_ops @ [Delete_Producer 0]) (empty_world ()) = None"
  by (simp add: op_defs stale_ops_def Channel_producer_def Producer_channels_def)

text \<open>
  Claim C7: destroying one of two consumers of a channel removes it from the channel's
  consumers and leaves the other registered, and a later \<open>produce\<close> of the channel's
  producer updates the other's cached state. The removal is as claimed; the later
  \<open>produce\<close> is not when the producer still lists a destroyed channel: after \<open>stale_ops\<close>
  and the destruction of consumer 0, channel 0 holds consumer 1 alone, and \<open>produce\<close> of
  producer 0 dereferences the destroyed channel 1.
\<close>

theorem produce_undefined_after_sibling_destruction:
  "map_option
     (\<lambda>w. (Channel_consumers w 0, Channel_producer w 0, Producer_channels w 0, channel_heap w 1))
     (run default_hook (Constructed 0) (stale_ops @ [Delete_Consumer 0]) (empty_world ())) =
       Some (Some [1], Some (Some 0), Some [1, 0], None) \<and>
   run default_hook (Constructed 0) (stale_ops @ [Delete_Consumer 0, Produce 0 5])
     (empty_world ()) = None"
  by (simp add: op_defs stale_ops_def Channel_consumers_def Channel_producer_def
      Producer_channels_def)

text \<open>
  Claim C8: rebinding a channel from its producer \<open>p1\<close> to another live producer \<open>p2\<close> makes
  \<open>p2\<close> the channel's producer and appends the channel to the channels of \<open>p2\<close>; the
  channels of \<open>p1\<close> are unchanged and still contain the channel.
\<close>

theorem set_producer_keeps_previous_link:
  assumes c: "consistent w" and chr: "channel_heap w ch = Some chr"
    and p1: "producer chr = Some p1" and p2: "producer_heap w p2 = Some pr2" and ne: "p2 \<noteq> p1"
  shows "\<exists>w'. set_producer ch (Some p2) w = Some w' \<and>
           Channel_producer w' ch = Some (Some p2) \<and>
           Producer_channels w' p2 = Some (channels pr2 @ [ch]) \<and>
           Producer_channels w' p1 = Producer_channels w p1 \<and>
           (\<exists>chs. Producer_channels w' p1 = Some chs \<and> ch \<in> set chs)"
proof -
  from consistent_producer[OF c chr p1] obtain pr1 where
    pr1: "producer_heap w p1 = Some pr1" and mem: "ch \<in> set (channels pr1)" by blast
  from set_producer_Some_eq[OF chr p2] pr1 mem ne show ?thesis
    by (simp add: Channel_producer_def Producer_channels_def)
qed

theorem set_producer_keeps_previous_link_witness:
  "consistent example_world \<and> Channel_producer example_world 0 = Some (Some 0) \<and>
   Producer_channels example_world 1 = Some [1] \<and>
   (\<exists>w'. set_producer 0 (Some 1) example_world = Some w' \<and>
      Channel_producer w' 0 = Some (Some 1) \<and> Producer_channels w' 1 = Some [1, 0] \<and>
      Producer_channels w' 0 = Some [0, 1])"
proof -
  have p1: "producer \<lparr>consumers = [0, 1], producer = Some 0\<rparr> = Some 0"
    and p2: "producer_heap example_world 1 = Some \<lparr>channels = [1]\<rparr>"
    and ne: "(1::nat) \<noteq> 0"
    by (simp_all add: example_world_def)
  from set_producer_keeps_previous_link[OF example_world_consistent example_channel_0 p1 p2 ne]
  show ?thesis
    using example_world_consistent
    by (auto simp: Channel_producer_def Producer_channels_def example_world_def)
qed

text \<open>
  Claim C9: once the channel of a consumer is destroyed, its \<^verbatim>\<open>channel()\<close> is \<^verbatim>\<open>nullptr\<close> at
  every later point and no later \<open>produce\<close> of any producer modifies its cached state. The
  code does not exclude the last: after \<open>severed_ops\<close> consumer 0 is severed, producer 0
  still lists the destroyed channel 0, and \<open>produce\<close> of producer 0 walks the consumers of
  the destroyed channel, where consumer 0 was registered.
\<close>

theorem produce_undefined_after_severing:
  "map_option
     (\<lambda>w. (Consumer_channel w 0, Consumer_state w 0, Producer_channels w 0, channel_heap w 0))
     (run default_hook (Constructed 0) severed_ops (empty_world ())) =
       Some (Some None, Some 0, Some [0], None) \<and>
   run default_hook (Constructed 0) (severed_ops @ [Produce 0 5]) (empty_world ()) = None"
  by (simp add: op_defs severed_ops_def Consumer_channel_def Consumer_state_def
      Producer_channels_def)

text \<open>
  Claim C10: for every channel bound to a producer \<open>p\<close>, after \<^verbatim>\<open>set_producer(nullptr)\<close> the
  channel has no producer but is still in the channels of \<open>p\<close>, so a later \<open>produce\<close> of \<open>p\<close>
  reaches every consumer of the channel. The first two parts are as claimed; the later
  \<open>produce\<close> is not when \<open>p\<close> still lists a destroyed channel: after \<open>stale_ops\<close> and the
  unbinding of channel 0, \<open>produce\<close> of producer 0 dereferences the destroyed channel 1.
\<close>

theorem produce_undefined_after_unbinding:
  "map_option (\<lambda>w. (Channel_producer w 0, Producer_channels w 0, channel_heap w 1))
     (run default_hook (Constructed 0) (stale_ops @ [Set_producer 0 None]) (empty_world ())) =
       Some (Some None, Some [1, 0], None) \<and>
   run default_hook (Constructed 0) (stale_ops @ [Set_producer 0 None, Produce 0 5])
     (empty_world ()) = None"
  by (simp add: op_defs stale_ops_def Channel_producer_def Producer_channels_def)

end
